theory Spec2Isabelle
  imports Main
begin

section \<open>Machine integers and formatted output\<close>

text \<open>
  The sketch stores every value in a C \<open>int\<close>, which is 32 bits wide on the ESP32.
  An \<open>int\<close> is modelled as a HOL \<open>int\<close>; the one place where the sketch adds
  values that come from outside (the accumulation \<open>sum += lightHistory[i]\<close>) has the
  reduction to the signed 32-bit range written out. Division is C's, truncating
  towards zero.
\<close>

definition int32 :: "int \<Rightarrow> int" where
  "int32 x = (x + 2147483648) mod 4294967296 - 2147483648"

definition c_div :: "int \<Rightarrow> int \<Rightarrow> int" where
  "c_div a b = sgn a * sgn b * (\<bar>a\<bar> div \<bar>b\<bar>)"

text \<open>The decimal text that \<open>%d\<close> produces.\<close>

fun digits10 :: "nat \<Rightarrow> string" where
  "digits10 n =
     (if n < 10 then [char_of (48 + n)]
      else digits10 (n div 10) @ [char_of (48 + n mod 10)])"

declare digits10.simps [simp del]

definition fmt_d :: "int \<Rightarrow> string" where
  "fmt_d v = (if v < 0 then CHR ''-'' # digits10 (nat (- v)) else digits10 (nat v))"

text \<open>
  \<open>snprintf(buf, size, "<prefix>%d", v)\<close>: at most \<open>size - 1\<close> characters are
  stored (the last byte of the buffer holds the terminating zero).
\<close>

definition snprintf_d :: "nat \<Rightarrow> string \<Rightarrow> int \<Rightarrow> string" where
  "snprintf_d n pre v = take (n - 1) (pre @ fmt_d v)"

section \<open>Observable actions\<close>

datatype level = LOW | HIGH

datatype pin_mode = OUTPUT

datatype sem_id = DisplaySemaphore | AlarmSemaphore

datatype task_id = LcdTask | LightDetectorTask | LightDisplayTask | AlarmTask | PrimeTask

record lcd_message_t =
  line1 :: string
  line2 :: string

text \<open>
  Every call a task makes into the board support library or the kernel is one event of
  the task's trace, in program order. \<open>SerialPrintf\<close> carries the format and the
  integer arguments; \<open>TaskDelayMs n\<close> is \<open>vTaskDelay(pdMS_TO_TICKS(n))\<close>.
\<close>

datatype event =
    SerialBegin nat
  | WireBegin nat nat
  | LcdInit
  | LcdBacklight
  | AnalogReadResolution nat
  | PinMode nat pin_mode
  | SerialPrintln string
  | SerialPrintf string "int list"
  | DigitalWrite nat level
  | TaskDelayMs nat
  | SemaphoreGive sem_id
  | SemaphoreTake sem_id
  | QueueSend lcd_message_t
  | TaskCreatePinnedToCore task_id string nat nat nat
  | TaskDelete

definition LIGHT_SENSOR_PIN :: nat where "LIGHT_SENSOR_PIN = 4"
definition LED_PIN :: nat where "LED_PIN = 5"
definition SDA_PIN :: nat where "SDA_PIN = 8"
definition SCL_PIN :: nat where "SCL_PIN = 9"

section \<open>Wake signals\<close>

text \<open>
  Modelled from the spec: the binary semaphore of the kernel (\<open>xSemaphoreCreateBinary\<close>,
  \<open>xSemaphoreGive\<close>, \<open>xSemaphoreTake\<close> with \<open>portMAX_DELAY\<close>), whose code is not
  part of the sketch. The spec describes it as a single-slot notification: a pending
  flag that a raise sets (idempotent when already set) and that a wait clears; a wait on
  a flag that is not set blocks, which is the result \<open>None\<close>. A new semaphore has no
  wake pending.
\<close>

type_synonym semaphore = bool

definition xSemaphoreCreateBinary :: semaphore where
  "xSemaphoreCreateBinary = False"

definition xSemaphoreGive :: "semaphore \<Rightarrow> semaphore" where
  "xSemaphoreGive pending = True"

definition xSemaphoreTake :: "semaphore \<Rightarrow> semaphore option" where
  "xSemaphoreTake pending = (if pending then Some False else None)"

text \<open>
  The wakes a consumer receives from \<open>k\<close> waits in a row with no raise in between;
  the first wait that blocks ends the count.
\<close>

fun wakes_received :: "nat \<Rightarrow> semaphore \<Rightarrow> nat" where
  "wakes_received 0 sem = 0"
| "wakes_received (Suc k) sem =
     (case xSemaphoreTake sem of None \<Rightarrow> 0 | Some sem' \<Rightarrow> 1 + wakes_received k sem')"

section \<open>Shared state\<close>

record shared =
  lightLevel :: int
  smaValue :: int
  lightHistory :: "int list"
  historyIndex :: nat
  displaySemaphore :: semaphore
  alarmSemaphore :: semaphore

definition init_shared :: shared where
  "init_shared =
     \<lparr> lightLevel = 0, smaValue = 0, lightHistory = [0, 0, 0, 0, 0], historyIndex = 0,
       displaySemaphore = xSemaphoreCreateBinary, alarmSemaphore = xSemaphoreCreateBinary \<rparr>"

section \<open>lightDetectorTask\<close>

text \<open>The loop \<open>for (int i = 0; i < 5; i++) sum += lightHistory[i]\<close>.\<close>

function sum_loop :: "int list \<Rightarrow> nat \<Rightarrow> int \<Rightarrow> int" where
  "sum_loop h i acc = (if i < 5 then sum_loop h (i + 1) (int32 (acc + h ! i)) else acc)"
  by pat_completeness auto
termination
  by (relation "measure (\<lambda>(h, i, acc). 5 - i)") auto

declare sum_loop.simps [simp del]

text \<open>
  One pass through the body of the task's \<open>while (1)\<close>, for the reading \<open>val\<close>
  that \<open>analogRead\<close> returned. The cursor \<open>historyIndex\<close> starts at 0 and is
  only ever assigned \<open>(historyIndex + 1) % 5\<close>, so it is a natural number; the write
  \<open>lightHistory[historyIndex] = val\<close> is the list update at that position.
\<close>

definition lightDetector_cycle :: "int \<Rightarrow> shared \<Rightarrow> shared \<times> event list" where
  "lightDetector_cycle val s =
     (let s1 = s\<lparr>lightLevel := val\<rparr>;
          s2 = s1\<lparr>lightHistory := (lightHistory s1)[historyIndex s1 := val]\<rparr>;
          s3 = s2\<lparr>historyIndex := (historyIndex s2 + 1) mod 5\<rparr>;
          total = sum_loop (lightHistory s3) 0 0;
          s4 = s3\<lparr>smaValue := c_div total 5\<rparr>;
          s5 = s4\<lparr>displaySemaphore := xSemaphoreGive (displaySemaphore s4)\<rparr>;
          s6 = s5\<lparr>alarmSemaphore := xSemaphoreGive (alarmSemaphore s5)\<rparr>
      in (s6,
          [SerialPrintf ''[LightDetector Task] Light: %d, SMA: %d\<newline>''
             [lightLevel s4, smaValue s4],
           SemaphoreGive DisplaySemaphore,
           SemaphoreGive AlarmSemaphore,
           TaskDelayMs 200]))"

text \<open>
  The task never leaves its loop; it is run here for as many cycles as there are
  readings in the list, oldest reading first.
\<close>

fun lightDetectorTask :: "int list \<Rightarrow> shared \<Rightarrow> shared \<times> event list" where
  "lightDetectorTask [] s = (s, [])"
| "lightDetectorTask (val # vals) s =
     (let (s', es) = lightDetector_cycle val s;
          (s'', es') = lightDetectorTask vals s'
      in (s'', es @ es'))"

definition sampler_after :: "int list \<Rightarrow> shared" where
  "sampler_after vals = fst (lightDetectorTask vals init_shared)"

text \<open>
  A reading of the 12-bit converter (\<open>analogReadResolution(12)\<close>): the spec's
  SensorSample.
\<close>

definition sample_ok :: "int \<Rightarrow> bool" where
  "sample_ok v \<longleftrightarrow> 0 \<le> v \<and> v \<le> 4095"

text \<open>
  The smoothing window in the spec's words: the five most recent readings, oldest
  first; while fewer than five have been written, the slots not yet written count as 0.
\<close>

definition recent5 :: "int list \<Rightarrow> int list" where
  "recent5 vals =
     (if 5 \<le> length vals then drop (length vals - 5) vals
      else replicate (5 - length vals) 0 @ vals)"

text \<open>What every cycle of the sampler keeps true of the shared state.\<close>

definition sampler_inv :: "shared \<Rightarrow> bool" where
  "sampler_inv s \<longleftrightarrow>
     length (lightHistory s) = 5 \<and> (\<forall>x\<in>set (lightHistory s). sample_ok x) \<and>
     historyIndex s < 5 \<and> sample_ok (lightLevel s) \<and> sample_ok (smaValue s)"

section \<open>lightDisplayTask\<close>

record display_local =
  lastLight :: int
  lastSMA :: int

definition display_init :: display_local where
  "display_init = \<lparr> lastLight = - 1, lastSMA = - 1 \<rparr>"

text \<open>
  The body run on a wake. \<open>lightLevel\<close> and \<open>smaValue\<close> are volatile globals
  that the sampler keeps writing, and the task loads them afresh at each use: for the
  test of line 119 (the shared state \<open>sc\<close>), for the two \<open>snprintf\<close> calls of
  lines 120-121 (\<open>sm\<close>) and, once \<open>xQueueSend\<close> has returned, for the
  assignments to \<open>lastLight\<close> and \<open>lastSMA\<close> of lines 124-125 (\<open>sa\<close>).
  \<open>xQueueSend\<close> with \<open>portMAX_DELAY\<close> waits for room in the queue; the
  completed send is the event \<open>QueueSend\<close>.
\<close>

definition lightDisplay_wake ::
  "shared \<Rightarrow> shared \<Rightarrow> shared \<Rightarrow> display_local \<Rightarrow> display_local \<times> event list" where
  "lightDisplay_wake sc sm sa l =
     (if lightLevel sc \<noteq> lastLight l \<or> smaValue sc \<noteq> lastSMA l then
        (let msg = \<lparr> line1 = snprintf_d 16 ''Light: '' (lightLevel sm),
                     line2 = snprintf_d 16 ''SMA: '' (smaValue sm) \<rparr>
         in (l\<lparr>lastLight := lightLevel sa, lastSMA := smaValue sa\<rparr>,
             [SerialPrintln ''[LightDisplay Task] Light/SMA changed. Sending to LCD...'',
              QueueSend msg]))
      else (l, []))"

text \<open>
  One pass through the task's \<open>while (1)\<close>, woken in the shared state \<open>s\<close>;
  \<open>None\<close> while it waits for a wake. The shared state returned is \<open>s\<close> with the
  task's only write to it, the take of its semaphore.
\<close>

definition lightDisplayTask_iter ::
  "shared \<Rightarrow> shared \<Rightarrow> shared \<Rightarrow> display_local \<Rightarrow>
     (shared \<times> display_local \<times> event list) option" where
  "lightDisplayTask_iter s sm sa l =
     (case xSemaphoreTake (displaySemaphore s) of
        None \<Rightarrow> None
      | Some sem \<Rightarrow>
          (let (l', es) = lightDisplay_wake s sm sa l
           in Some (s\<lparr>displaySemaphore := sem\<rparr>, l', SemaphoreTake DisplaySemaphore # es)))"

section \<open>alarmTask\<close>

text \<open>The loop \<open>for (int i = 0; i < 3; i++)\<close> that flashes the LED.\<close>

function flash_loop :: "nat \<Rightarrow> event list" where
  "flash_loop i =
     (if i < 3 then
        [DigitalWrite LED_PIN HIGH, TaskDelayMs 250, DigitalWrite LED_PIN LOW, TaskDelayMs 250]
          @ flash_loop (i + 1)
      else [])"
  by pat_completeness auto
termination
  by (relation "measure (\<lambda>i. 3 - i)") auto

declare flash_loop.simps [simp del]

definition alarm_wake :: "int \<Rightarrow> event list" where
  "alarm_wake sma =
     SerialPrintf ''[Alarm Task] Checking SMA: %d\<newline>'' [sma] #
     (if sma > 3800 \<or> sma < 300 then
        SerialPrintln ''[Alarm Task] Anomaly Detected! Flashing LED...'' #
        flash_loop 0 @ [TaskDelayMs 2000]
      else [])"

text \<open>One pass through the task's \<open>while (1)\<close>; \<open>None\<close> while it waits for a wake.\<close>

definition alarmTask_iter :: "shared \<Rightarrow> (shared \<times> event list) option" where
  "alarmTask_iter s =
     (case xSemaphoreTake (alarmSemaphore s) of
        None \<Rightarrow> None
      | Some sem \<Rightarrow>
          Some (s\<lparr>alarmSemaphore := sem\<rparr>,
                SemaphoreTake AlarmSemaphore # alarm_wake (smaValue s)))"


section \<open>primeTask\<close>

text \<open>
  The counters \<open>num\<close> and \<open>i\<close> start at 2 and only grow, up to 5001 and 71, so
  they are natural numbers and \<open>i * i\<close> stays far below the range of an \<open>int\<close>.
  The inner loop \<open>for (int i = 2; i * i <= num; i++)\<close>, returning \<open>isPrime\<close>:
\<close>

function isPrime_loop :: "nat \<Rightarrow> nat \<Rightarrow> bool" where
  "isPrime_loop num i =
     (if i * i \<le> num then (if num mod i = 0 then False else isPrime_loop num (i + 1))
      else True)"
  by pat_completeness auto
termination
proof (relation "measure (\<lambda>(num, i). num + 1 - i)")
  fix num i :: nat
  assume "i * i \<le> num"
  moreover have "i \<le> i * i"
    by (cases i) simp_all
  ultimately have "i \<le> num"
    by linarith
  then show "((num, i + 1), (num, i)) \<in> measure (\<lambda>(num, i). num + 1 - i)"
    by simp
qed simp

declare isPrime_loop.simps [simp del]

definition prime_line :: "nat \<Rightarrow> event" where
  "prime_line num = SerialPrintf ''Prime: %d\<newline>'' [int num]"

text \<open>The outer loop \<open>for (int num = 2; num <= 5000; num++)\<close>.\<close>

function prime_loop :: "nat \<Rightarrow> event list" where
  "prime_loop num =
     (if num \<le> 5000 then
        (if isPrime_loop num 2 then [prime_line num, TaskDelayMs 10] else []) @ prime_loop (num + 1)
      else [])"
  by pat_completeness auto
termination
  by (relation "measure (\<lambda>num. 5001 - num)") auto

declare prime_loop.simps [simp del]

definition primeTask :: "event list" where
  "primeTask =
     SerialPrintln ''[Prime Task] Starting prime computation...'' #
     prime_loop 2 @
     [SerialPrintln ''[Prime Task] Prime computation completed.'', TaskDelete]"

text \<open>The numbers a trace emits, in order.\<close>

fun emitted :: "event list \<Rightarrow> int list" where
  "emitted [] = []"
| "emitted (SerialPrintf f args # es) =
     (if f = ''Prime: %d\<newline>'' then args @ emitted es else emitted es)"
| "emitted (e # es) = emitted es"

text \<open>
  Primality in the spec's sense, to compare the trial division with: a number from 2 on
  that no number strictly between 1 and itself divides.
\<close>

definition is_prime :: "nat \<Rightarrow> bool" where
  "is_prime n \<longleftrightarrow> 2 \<le> n \<and> (\<forall>d\<in>{2..<n}. \<not> d dvd n)"

section \<open>Startup\<close>

text \<open>The statement \<open>while (1);\<close>: it never completes, which is the result \<open>None\<close>.\<close>

partial_function (option) halt_forever :: "unit \<Rightarrow> unit option" where
  "halt_forever u = halt_forever u"

text \<open>
  The function \<open>setup()\<close> of the sketch (its name is reserved in Isabelle, hence
  \<open>setup_sketch\<close>), for the three handles that \<open>xSemaphoreCreateBinary\<close> (twice) and
  \<open>xQueueCreate\<close> returned, \<open>None\<close> being the null handle of a failed allocation.
  The result is the trace, and \<open>Some ()\<close> when the function returns.
\<close>

definition setup_sketch ::
  "semaphore option \<Rightarrow> semaphore option \<Rightarrow> lcd_message_t list option \<Rightarrow> event list \<times> unit option" where
  "setup_sketch displaySem alarmSem lcdQueue =
     (let es =
        [SerialBegin 115200, WireBegin SDA_PIN SCL_PIN, LcdInit, LcdBacklight,
         AnalogReadResolution 12, PinMode LED_PIN OUTPUT]
      in if lcdQueue = None \<or> displaySem = None \<or> alarmSem = None then
           (es @ [SerialPrintln ''Failed to create queue or semaphores''], halt_forever ())
         else
           (es @
            [TaskCreatePinnedToCore LcdTask ''LCD'' 2048 1 0,
             TaskCreatePinnedToCore LightDetectorTask ''LightDetector'' 2048 2 0,
             TaskCreatePinnedToCore LightDisplayTask ''LightDisplay'' 2048 2 0,
             TaskCreatePinnedToCore AlarmTask ''Alarm'' 2048 1 1,
             TaskCreatePinnedToCore PrimeTask ''Prime'' 4096 1 1],
            Some ()))"

fun is_task_create :: "event \<Rightarrow> bool" where
  "is_task_create (TaskCreatePinnedToCore t n st pr c) = True"
| "is_task_create e = False"

section \<open>Properties of the sampler\<close>

lemma int32_id: "- 2147483648 \<le> x \<Longrightarrow> x < 2147483648 \<Longrightarrow> int32 x = x"
  by (simp add: int32_def)

lemma c_div_nonneg: "0 \<le> a \<Longrightarrow> c_div a 5 = a div 5"
  by (cases "a = 0") (simp_all add: c_div_def)

lemma length5_conv: "length (h::'a list) = 5 \<longleftrightarrow> (\<exists>a b c d e. h = [a, b, c, d, e])"
  by (auto simp: eval_nat_numeral length_Suc_conv)

lemma sum_loop_drop:
  "i \<le> 5 \<Longrightarrow> length h = 5 \<Longrightarrow> \<forall>x\<in>set h. sample_ok x \<Longrightarrow> 0 \<le> acc \<Longrightarrow> acc \<le> 4095 * int i
   \<Longrightarrow> sum_loop h i acc = acc + sum_list (drop i h)"
proof (induction h i acc rule: sum_loop.induct)
  case (1 h i acc)
  show ?case
  proof (cases "i < 5")
    case True
    with "1.prems" have "sample_ok (h ! i)"
      by simp
    then have el: "0 \<le> h ! i" "h ! i \<le> 4095"
      by (simp_all add: sample_ok_def)
    from "1.prems" True have "acc \<le> 16380"
      by linarith
    with el "1.prems" have wrap: "int32 (acc + h ! i) = acc + h ! i"
      by (intro int32_id) linarith+
    from True "1.prems" have unroll: "drop i h = h ! i # drop (i + 1) h"
      by (simp add: Cons_nth_drop_Suc)
    from el "1.prems" True
    have "sum_loop h (i + 1) (int32 (acc + h ! i))
            = int32 (acc + h ! i) + sum_list (drop (i + 1) h)"
      by (intro "1.IH") (simp_all add: wrap algebra_simps)
    then show ?thesis
      using True by (subst sum_loop.simps) (simp add: wrap unroll)
  next
    case False
    with "1.prems" show ?thesis
      by (subst sum_loop.simps) simp
  qed
qed

lemma sum_loop_exact:
  "length h = 5 \<Longrightarrow> \<forall>x\<in>set h. sample_ok x \<Longrightarrow> sum_loop h 0 0 = sum_list h"
  using sum_loop_drop [of 0 h 0] by simp

lemma sum5_bounds:
  assumes "length h = 5" and "\<forall>x\<in>set h. sample_ok x"
  shows "0 \<le> sum_list h" and "sample_ok (sum_list h div 5)"
proof -
  from assms(1) obtain a b c d e where h: "h = [a, b, c, d, e]"
    by (auto simp: length5_conv)
  from assms(2) have r: "0 \<le> a" "a \<le> 4095" "0 \<le> b" "b \<le> 4095" "0 \<le> c" "c \<le> 4095"
    "0 \<le> d" "d \<le> 4095" "0 \<le> e" "e \<le> 4095"
    by (simp_all add: h sample_ok_def)
  have s: "0 \<le> a + b + c + d + e" "a + b + c + d + e \<le> 20475"
    using r by linarith+
  then have "0 \<le> (a + b + c + d + e) div 5 \<and> (a + b + c + d + e) div 5 \<le> 4095"
    by presburger
  then show "sample_ok (sum_list h div 5)"
    by (simp add: h sample_ok_def add.assoc)
  from s show "0 \<le> sum_list h"
    by (simp add: h add.assoc)
qed

lemma sum_list_rotate1: "sum_list (rotate1 xs) = sum_list (xs::int list)"
  by (cases xs) simp_all

lemma sum_list_rotate: "sum_list (rotate n xs) = sum_list (xs::int list)"
  by (induction n) (simp_all add: sum_list_rotate1)

lemma rotate_step:
  assumes "length h = 5" and "i < 5"
  shows "rotate (Suc i mod 5) (h[i := v]) = tl (rotate i h) @ [v]"
proof -
  from assms(1) obtain a b c d e where h: "h = [a, b, c, d, e]"
    by (auto simp: length5_conv)
  from assms(2) consider "i = 0" | "i = 1" | "i = 2" | "i = 3" | "i = 4"
    by linarith
  then show ?thesis
  proof cases
    case 1 then show ?thesis by (simp add: h)
  next
    case 2 then show ?thesis by (simp add: h)
  next
    case 3 then show ?thesis by (simp add: h rotate_drop_take)
  next
    case 4 then show ?thesis by (simp add: h rotate_drop_take)
  next
    case 5 then show ?thesis by (simp add: h rotate_drop_take)
  qed
qed

lemma recent5_length: "length (recent5 vals) = 5"
  by (simp add: recent5_def)

lemma recent5_snoc: "recent5 (vals @ [v]) = tl (recent5 vals) @ [v]"
proof -
  consider "5 \<le> length vals" | "length vals = 4" | "length vals < 4"
    by linarith
  then show ?thesis
  proof cases
    case 1
    then have "length vals - 4 = Suc (length vals - 5)"
      by linarith
    then have "drop (length vals - 4) vals = tl (drop (length vals - 5) vals)"
      by (simp add: drop_Suc tl_drop)
    with 1 show ?thesis
      by (simp add: recent5_def)
  next
    case 2
    then show ?thesis
      by (simp add: recent5_def)
  next
    case 3
    then have "5 - length vals = Suc (4 - length vals)"
      by simp
    with 3 show ?thesis
      by (simp add: recent5_def)
  qed
qed

lemma cycle_fields:
  "lightLevel (fst (lightDetector_cycle v s)) = v"
  "lightHistory (fst (lightDetector_cycle v s)) = (lightHistory s)[historyIndex s := v]"
  "historyIndex (fst (lightDetector_cycle v s)) = (historyIndex s + 1) mod 5"
  "smaValue (fst (lightDetector_cycle v s)) =
     c_div (sum_loop ((lightHistory s)[historyIndex s := v]) 0 0) 5"
  "displaySemaphore (fst (lightDetector_cycle v s)) = True"
  "alarmSemaphore (fst (lightDetector_cycle v s)) = True"
  by (simp_all add: lightDetector_cycle_def Let_def xSemaphoreGive_def)

lemma task_Cons_fst:
  "fst (lightDetectorTask (v # vs) s) = fst (lightDetectorTask vs (fst (lightDetector_cycle v s)))"
  by (simp split: prod.splits)

lemma task_append:
  "fst (lightDetectorTask (xs @ ys) s) = fst (lightDetectorTask ys (fst (lightDetectorTask xs s)))"
  by (induction xs arbitrary: s) (simp_all add: task_Cons_fst del: lightDetectorTask.simps(2))

lemma sampler_after_Nil: "sampler_after [] = init_shared"
  by (simp add: sampler_after_def)

lemma sampler_after_snoc:
  "sampler_after (vals @ [v]) = fst (lightDetector_cycle v (sampler_after vals))"
  by (simp add: sampler_after_def task_append task_Cons_fst del: lightDetectorTask.simps(2))

lemma sampler_slots:
  "\<forall>v\<in>set vals. sample_ok v \<Longrightarrow>
   length (lightHistory (sampler_after vals)) = 5 \<and>
   (\<forall>x\<in>set (lightHistory (sampler_after vals)). sample_ok x) \<and>
   historyIndex (sampler_after vals) < 5"
proof (induction vals rule: rev_induct)
  case Nil
  show ?case
    by (simp add: sampler_after_Nil init_shared_def sample_ok_def)
next
  case (snoc v vals)
  then have IH: "length (lightHistory (sampler_after vals)) = 5"
    "\<forall>x\<in>set (lightHistory (sampler_after vals)). sample_ok x" and v: "sample_ok v"
    by simp_all
  have "set ((lightHistory (sampler_after vals))[historyIndex (sampler_after vals) := v])
          \<subseteq> insert v (set (lightHistory (sampler_after vals)))"
    by (rule set_update_subset_insert)
  with IH v show ?case
    by (auto simp: sampler_after_snoc cycle_fields)
qed

lemma sampler_window:
  "length (lightHistory (sampler_after vals)) = 5 \<and> historyIndex (sampler_after vals) < 5 \<and>
   rotate (historyIndex (sampler_after vals)) (lightHistory (sampler_after vals)) = recent5 vals"
proof (induction vals rule: rev_induct)
  case Nil
  show ?case
    by (simp add: sampler_after_Nil init_shared_def recent5_def eval_nat_numeral)
next
  case (snoc v vals)
  then show ?case
    by (simp add: sampler_after_snoc cycle_fields rotate_step recent5_snoc)
qed

lemma sampler_sma:
  assumes "\<forall>v\<in>set vals. sample_ok v"
  shows "smaValue (sampler_after vals) = sum_list (recent5 vals) div 5"
proof (cases vals rule: rev_cases)
  case Nil
  then show ?thesis
    by (simp add: sampler_after_Nil init_shared_def recent5_def eval_nat_numeral)
next
  case (snoc ws v)
  let ?h = "lightHistory (sampler_after vals)"
  from assms have slots: "length ?h = 5" "\<forall>x\<in>set ?h. sample_ok x"
    using sampler_slots [of vals] by simp_all
  have "smaValue (sampler_after vals) = c_div (sum_loop ?h 0 0) 5"
    by (simp add: snoc sampler_after_snoc cycle_fields)
  also have "\<dots> = c_div (sum_list ?h) 5"
    using slots by (simp add: sum_loop_exact)
  also have "\<dots> = sum_list ?h div 5"
    using slots by (simp add: c_div_nonneg sum5_bounds)
  also have "sum_list ?h = sum_list (rotate (historyIndex (sampler_after vals)) ?h)"
    by (simp add: sum_list_rotate)
  also have "\<dots> = sum_list (recent5 vals)"
    by (simp add: sampler_window)
  finally show ?thesis .
qed

lemma sampler_level:
  "\<forall>v\<in>set vals. sample_ok v \<Longrightarrow> sample_ok (lightLevel (sampler_after vals))"
  by (cases vals rule: rev_cases)
     (simp_all add: sampler_after_Nil init_shared_def sample_ok_def sampler_after_snoc cycle_fields)

lemma sampler_sma_range:
  assumes "\<forall>v\<in>set vals. sample_ok v"
  shows "sample_ok (smaValue (sampler_after vals))"
proof -
  have "length (recent5 vals) = 5"
    by (rule recent5_length)
  moreover from assms have "\<forall>x\<in>set (recent5 vals). sample_ok x"
    by (auto simp: recent5_def sample_ok_def dest: in_set_dropD)
  ultimately have "sample_ok (sum_list (recent5 vals) div 5)"
    by (rule sum5_bounds)
  with assms show ?thesis
    by (simp add: sampler_sma)
qed

lemma cycle_keeps_inv:
  assumes "sampler_inv s" and "sample_ok v"
  shows "sampler_inv (fst (lightDetector_cycle v s))"
proof -
  let ?h = "(lightHistory s)[historyIndex s := v]"
  have "set ?h \<subseteq> insert v (set (lightHistory s))"
    by (rule set_update_subset_insert)
  with assms have slots: "length ?h = 5" "\<forall>x\<in>set ?h. sample_ok x"
    by (auto simp: sampler_inv_def)
  then have "sample_ok (c_div (sum_loop ?h 0 0) 5)"
    by (simp add: sum_loop_exact c_div_nonneg sum5_bounds)
  with slots assms(2) show ?thesis
    by (simp add: sampler_inv_def cycle_fields)
qed

text \<open>
  C10: with every reading in [0, 4095], the start state satisfies the range invariant,
  every sampler cycle preserves it, and so after any number of cycles the published raw
  value and the published smoothed value lie in [0, 4095] and the write cursor is below 5.
\<close>

theorem published_values_in_range:
  "sampler_inv init_shared \<and>
   (sampler_inv s \<and> sample_ok v \<longrightarrow> sampler_inv (fst (lightDetector_cycle v s))) \<and>
   ((\<forall>x\<in>set vals. sample_ok x) \<longrightarrow>
      sample_ok (lightLevel (sampler_after vals)) \<and>
      sample_ok (smaValue (sampler_after vals)) \<and>
      historyIndex (sampler_after vals) < 5)"
proof (intro conjI impI)
  show "sampler_inv init_shared"
    by (simp add: sampler_inv_def init_shared_def sample_ok_def)
next
  assume "sampler_inv s \<and> sample_ok v"
  then show "sampler_inv (fst (lightDetector_cycle v s))"
    by (simp add: cycle_keeps_inv)
next
  assume "\<forall>x\<in>set vals. sample_ok x"
  then show "sample_ok (lightLevel (sampler_after vals))"
    by (rule sampler_level)
next
  assume "\<forall>x\<in>set vals. sample_ok x"
  then show "sample_ok (smaValue (sampler_after vals))"
    by (rule sampler_sma_range)
next
  show "historyIndex (sampler_after vals) < 5"
    by (simp add: sampler_window)
qed

theorem published_values_in_range_witness:
  "sampler_inv init_shared \<and> sample_ok 4095 \<and>
   sampler_inv (fst (lightDetector_cycle 4095 init_shared)) \<and>
   list_all sample_ok [4095, 0, 17] \<and>
   sample_ok (lightLevel (sampler_after [4095, 0, 17])) \<and>
   sample_ok (smaValue (sampler_after [4095, 0, 17])) \<and>
   historyIndex (sampler_after [4095, 0, 17]) < 5"
  using published_values_in_range [of init_shared 4095 "[4095, 0, 17]"]
  by (simp add: sample_ok_def)

text \<open>
  C2: with every reading in the sensor's range, once at least five readings have been
  written the published smoothed value is the integer mean (sum divided by 5) of exactly
  the five most recent readings; with fewer, it is the same mean over the readings written
  and the zero-initialised slots that remain.
\<close>

theorem sma_is_mean_of_recent_samples:
  assumes "\<forall>v\<in>set vals. sample_ok v"
  shows "(5 \<le> length vals \<longrightarrow>
            smaValue (sampler_after vals) = sum_list (drop (length vals - 5) vals) div 5) \<and>
         (length vals < 5 \<longrightarrow>
            smaValue (sampler_after vals)
              = (sum_list (replicate (5 - length vals) 0) + sum_list vals) div 5)"
  using sampler_sma [OF assms] by (simp add: recent5_def)

theorem sma_is_mean_of_recent_samples_witness:
  "list_all sample_ok [100, 200, 300, 400, 500, 1000] \<and>
   smaValue (sampler_after [100, 200, 300, 400, 500, 1000]) = 480 \<and>
   list_all sample_ok [10, 20] \<and>
   smaValue (sampler_after [10, 20]) = 6"
  using sma_is_mean_of_recent_samples [of "[100, 200, 300, 400, 500, 1000]"]
        sma_is_mean_of_recent_samples [of "[10, 20]"]
  by (simp add: sample_ok_def sum_list_replicate)

section \<open>Properties of the wake signals\<close>

lemma cycle_sems:
  "displaySemaphore (fst (lightDetector_cycle v s))" "alarmSemaphore (fst (lightDetector_cycle v s))"
  by (simp_all add: lightDetector_cycle_def Let_def xSemaphoreGive_def)

lemma task_sems:
  "vals \<noteq> [] \<Longrightarrow>
   displaySemaphore (fst (lightDetectorTask vals s)) \<and> alarmSemaphore (fst (lightDetectorTask vals s))"
proof (induction vals arbitrary: s rule: rev_induct)
  case Nil
  then show ?case by simp
next
  case (snoc v vals)
  have "fst (lightDetectorTask (vals @ [v]) s)
          = fst (lightDetector_cycle v (fst (lightDetectorTask vals s)))"
    by (simp add: task_append task_Cons_fst del: lightDetectorTask.simps(2))
  then show ?case
    by (simp add: cycle_sems)
qed

lemma sampler_after_sems:
  "vals \<noteq> [] \<Longrightarrow> displaySemaphore (sampler_after vals) \<and> alarmSemaphore (sampler_after vals)"
  by (simp add: sampler_after_def task_sems)

lemma give_funpow: "0 < N \<Longrightarrow> (xSemaphoreGive ^^ N) sem = True"
  by (cases N) (simp_all add: xSemaphoreGive_def)

lemma wakes_received_pending: "0 < k \<Longrightarrow> wakes_received k True = 1"
  by (cases k; cases "k - 1") (simp_all add: xSemaphoreTake_def)

lemma task_Cons_snd:
  "snd (lightDetectorTask (v # vs) s)
     = snd (lightDetector_cycle v s) @ snd (lightDetectorTask vs (fst (lightDetector_cycle v s)))"
  by (simp split: prod.splits)

lemma cycle_events:
  "snd (lightDetector_cycle v s) =
     [SerialPrintf ''[LightDetector Task] Light: %d, SMA: %d\<newline>''
        [v, smaValue (fst (lightDetector_cycle v s))],
      SemaphoreGive DisplaySemaphore, SemaphoreGive AlarmSemaphore, TaskDelayMs 200]"
  by (simp add: lightDetector_cycle_def Let_def)

lemma task_gives:
  "length (filter (\<lambda>e. e = SemaphoreGive x) (snd (lightDetectorTask vals s))) = length vals"
proof (induction vals arbitrary: s)
  case Nil
  show ?case by simp
next
  case (Cons v vals)
  then show ?case
    by (cases x) (simp_all add: task_Cons_snd cycle_events del: lightDetectorTask.simps(2))
qed

text \<open>
  C7: a raise on a pending wake signal is absorbed. After any number N >= 1 of raises on a
  signal, and after N sampler cycles (each of which raises both signals once), a consumer
  that then waits k >= 1 times in a row receives exactly one wake.
\<close>

theorem wake_signals_coalesce:
  assumes "0 < N" and "0 < k" and "length vals = N"
  shows "wakes_received k ((xSemaphoreGive ^^ N) sem) = 1 \<and>
         length (filter (\<lambda>e. e = SemaphoreGive DisplaySemaphore) (snd (lightDetectorTask vals s))) = N \<and>
         length (filter (\<lambda>e. e = SemaphoreGive AlarmSemaphore) (snd (lightDetectorTask vals s))) = N \<and>
         wakes_received k (displaySemaphore (fst (lightDetectorTask vals s))) = 1 \<and>
         wakes_received k (alarmSemaphore (fst (lightDetectorTask vals s))) = 1"
proof -
  from assms have "vals \<noteq> []"
    by auto
  then have "displaySemaphore (fst (lightDetectorTask vals s)) = True"
    "alarmSemaphore (fst (lightDetectorTask vals s)) = True"
    using task_sems [of vals s] by simp_all
  with assms show ?thesis
    by (simp add: give_funpow wakes_received_pending task_gives)
qed

theorem wake_signals_coalesce_witness:
  "(0::nat) < 3 \<and> (0::nat) < 2 \<and> length [10, 20, 30 :: int] = 3 \<and>
   wakes_received 2 ((xSemaphoreGive ^^ 3) xSemaphoreCreateBinary) = 1 \<and>
   length (filter (\<lambda>e. e = SemaphoreGive DisplaySemaphore)
             (snd (lightDetectorTask [10, 20, 30] init_shared))) = 3 \<and>
   wakes_received 2 (displaySemaphore (fst (lightDetectorTask [10, 20, 30] init_shared))) = 1 \<and>
   wakes_received 2 (alarmSemaphore (fst (lightDetectorTask [10, 20, 30] init_shared))) = 1"
  using wake_signals_coalesce [of 3 2 "[10, 20, 30]" xSemaphoreCreateBinary init_shared]
  by simp

section \<open>Properties of the alarm monitor\<close>

text \<open>
  The task reads \<open>smaValue\<close> from the shared state \<open>s\<close> it is run
  against; the sampler does not run in between.
\<close>

lemma flash_loop_0:
  "flash_loop 0 =
     [DigitalWrite LED_PIN HIGH, TaskDelayMs 250, DigitalWrite LED_PIN LOW, TaskDelayMs 250,
      DigitalWrite LED_PIN HIGH, TaskDelayMs 250, DigitalWrite LED_PIN LOW, TaskDelayMs 250,
      DigitalWrite LED_PIN HIGH, TaskDelayMs 250, DigitalWrite LED_PIN LOW, TaskDelayMs 250]"
  by code_simp

lemma alarm_wake_out:
  "sma > 3800 \<or> sma < 300 \<Longrightarrow>
   alarm_wake sma =
     [SerialPrintf ''[Alarm Task] Checking SMA: %d\<newline>'' [sma],
      SerialPrintln ''[Alarm Task] Anomaly Detected! Flashing LED...'',
      DigitalWrite LED_PIN HIGH, TaskDelayMs 250, DigitalWrite LED_PIN LOW, TaskDelayMs 250,
      DigitalWrite LED_PIN HIGH, TaskDelayMs 250, DigitalWrite LED_PIN LOW, TaskDelayMs 250,
      DigitalWrite LED_PIN HIGH, TaskDelayMs 250, DigitalWrite LED_PIN LOW, TaskDelayMs 250,
      TaskDelayMs 2000]"
  by (simp add: alarm_wake_def flash_loop_0)


lemma alarmTask_iter_pending:
  "alarmSemaphore s \<Longrightarrow>
   alarmTask_iter s =
     Some (s\<lparr>alarmSemaphore := False\<rparr>, SemaphoreTake AlarmSemaphore # alarm_wake (smaValue s))"
  by (simp add: alarmTask_iter_def xSemaphoreTake_def)

lemma five_equal:
  assumes "sample_ok v"
  shows "smaValue (sampler_after [v, v, v, v, v]) = v"
  using sampler_sma [of "[v, v, v, v, v]"] assms by (simp add: recent5_def)



text \<open>
  C5: a wake with the smoothed value out of range runs this trace and no other: the LED
  is written HIGH, LOW three times with a delay of 250 ms after each write, then the task
  delays 2000 ms with the LED left LOW. The semaphore is taken once, at the start; the
  next take is that of the next pass through the loop, after the last delay.
\<close>

theorem alarm_episode_trace:
  assumes "alarmSemaphore s" and "smaValue s > 3800 \<or> smaValue s < 300"
  shows "alarmTask_iter s =
     Some (s\<lparr>alarmSemaphore := False\<rparr>,
       [SemaphoreTake AlarmSemaphore,
        SerialPrintf ''[Alarm Task] Checking SMA: %d\<newline>'' [smaValue s],
        SerialPrintln ''[Alarm Task] Anomaly Detected! Flashing LED...'',
        DigitalWrite LED_PIN HIGH, TaskDelayMs 250, DigitalWrite LED_PIN LOW, TaskDelayMs 250,
        DigitalWrite LED_PIN HIGH, TaskDelayMs 250, DigitalWrite LED_PIN LOW, TaskDelayMs 250,
        DigitalWrite LED_PIN HIGH, TaskDelayMs 250, DigitalWrite LED_PIN LOW, TaskDelayMs 250,
        TaskDelayMs 2000])"
  using assms by (simp add: alarmTask_iter_pending alarm_wake_out)

theorem alarm_episode_trace_witness:
  "alarmSemaphore (sampler_after [4000, 4000, 4000, 4000, 4000]) \<and>
   smaValue (sampler_after [4000, 4000, 4000, 4000, 4000]) = 4000 \<and>
   alarmTask_iter (sampler_after [4000, 4000, 4000, 4000, 4000]) =
     Some ((sampler_after [4000, 4000, 4000, 4000, 4000])\<lparr>alarmSemaphore := False\<rparr>,
       [SemaphoreTake AlarmSemaphore,
        SerialPrintf ''[Alarm Task] Checking SMA: %d\<newline>'' [4000],
        SerialPrintln ''[Alarm Task] Anomaly Detected! Flashing LED...'',
        DigitalWrite LED_PIN HIGH, TaskDelayMs 250, DigitalWrite LED_PIN LOW, TaskDelayMs 250,
        DigitalWrite LED_PIN HIGH, TaskDelayMs 250, DigitalWrite LED_PIN LOW, TaskDelayMs 250,
        DigitalWrite LED_PIN HIGH, TaskDelayMs 250, DigitalWrite LED_PIN LOW, TaskDelayMs 250,
        TaskDelayMs 2000])"
  using alarm_episode_trace [of "sampler_after [4000, 4000, 4000, 4000, 4000]"]
        five_equal [of 4000] sampler_after_sems [of "[4000, 4000, 4000, 4000, 4000]"]
  by (simp add: sample_ok_def)

section \<open>Properties of the display composer\<close>

lemma lightDisplayTask_iter_pending:
  "displaySemaphore s \<Longrightarrow>
   lightDisplayTask_iter s sm sa l =
     Some (s\<lparr>displaySemaphore := False\<rparr>, fst (lightDisplay_wake s sm sa l),
           SemaphoreTake DisplaySemaphore # snd (lightDisplay_wake s sm sa l))"
  by (simp add: lightDisplayTask_iter_def xSemaphoreTake_def split: prod.splits)

lemma lightDisplay_wake_changed:
  "lightLevel sc \<noteq> lastLight l \<or> smaValue sc \<noteq> lastSMA l \<Longrightarrow>
   lightDisplay_wake sc sm sa l =
     (l\<lparr>lastLight := lightLevel sa, lastSMA := smaValue sa\<rparr>,
      [SerialPrintln ''[LightDisplay Task] Light/SMA changed. Sending to LCD...'',
       QueueSend \<lparr> line1 = snprintf_d 16 ''Light: '' (lightLevel sm),
                   line2 = snprintf_d 16 ''SMA: '' (smaValue sm) \<rparr>])"
  by (simp add: lightDisplay_wake_def)

lemma lightDisplay_wake_same:
  "lightLevel sc = lastLight l \<Longrightarrow> smaValue sc = lastSMA l \<Longrightarrow>
   lightDisplay_wake sc sm sa l = (l, [])"
  by (simp add: lightDisplay_wake_def)

lemma sampler_after_last: "vals \<noteq> [] \<Longrightarrow> lightLevel (sampler_after vals) = last vals"
  by (cases vals rule: rev_cases) (simp_all add: sampler_after_snoc cycle_fields)

lemma fmt_examples:
  "snprintf_d 16 ''Light: '' 1000 = ''Light: 1000''"
  "snprintf_d 16 ''SMA: '' 480 = ''SMA: 480''"
  "snprintf_d 16 ''Light: '' 4095 = ''Light: 4095''"
  "snprintf_d 16 ''SMA: '' 819 = ''SMA: 819''"
  by (simp_all add: snprintf_d_def fmt_d_def digits10.simps char_of_def bit_Suc_0_iff)

lemma after_4095: "lightLevel (sampler_after [4095]) = 4095" "smaValue (sampler_after [4095]) = 819"
  using sampler_sma [of "[4095]"]
  by (simp_all add: sampler_after_last recent5_def sample_ok_def eval_nat_numeral)

lemma after_1000:
  "lightLevel (sampler_after [100, 200, 300, 400, 500, 1000]) = 1000"
  "smaValue (sampler_after [100, 200, 300, 400, 500, 1000]) = 480"
  using sampler_sma [of "[100, 200, 300, 400, 500, 1000]"]
  by (simp_all add: sampler_after_last recent5_def sample_ok_def)

lemma after_3000:
  "lightLevel (sampler_after [100, 200, 300, 400, 500, 1000, 3000]) = 3000"
  "smaValue (sampler_after [100, 200, 300, 400, 500, 1000, 3000]) = 1040"
  using sampler_sma [of "[100, 200, 300, 400, 500, 1000, 3000]"]
  by (simp_all add: sampler_after_last recent5_def sample_ok_def)

lemma minus_one_not_sample: "sample_ok v \<Longrightarrow> v \<noteq> - 1"
  by (auto simp: sample_ok_def)

text \<open>
  What the task does on a wake during which the sampler does not write: it sends one
  message, formatted from both values, exactly when either value differs from its memory,
  and its memory becomes that pair; otherwise it sends nothing and keeps its memory.
\<close>

lemma lightDisplayTask_iter_steady:
  assumes "displaySemaphore s"
  shows "lightDisplayTask_iter s s s l =
           (if lightLevel s \<noteq> lastLight l \<or> smaValue s \<noteq> lastSMA l then
              Some (s\<lparr>displaySemaphore := False\<rparr>,
                    l\<lparr>lastLight := lightLevel s, lastSMA := smaValue s\<rparr>,
                    [SemaphoreTake DisplaySemaphore,
                     SerialPrintln ''[LightDisplay Task] Light/SMA changed. Sending to LCD...'',
                     QueueSend \<lparr> line1 = snprintf_d 16 ''Light: '' (lightLevel s),
                                 line2 = snprintf_d 16 ''SMA: '' (smaValue s) \<rparr>])
            else Some (s\<lparr>displaySemaphore := False\<rparr>, l, [SemaphoreTake DisplaySemaphore]))"
  using assms
  by (simp add: lightDisplayTask_iter_pending lightDisplay_wake_changed lightDisplay_wake_same)

text \<open>
  C4: the memory of the task is not the pair it rendered. The task has rendered the
  readings up to 500 (raw 500, smoothed 300) and is woken after the reading 1000. It
  formats and sends raw 1000, smoothed 480; while \<open>xQueueSend\<close> waits for room in the
  queue the sampler runs one more cycle, with the reading 3000; lines 124-125 then load
  the globals again and the memory becomes raw 3000, smoothed 1040, a pair that was never
  sent. On the next wake the shared pair is still 3000, 1040: it differs from the pair
  last rendered (1000, 480), and the task sends nothing.
\<close>

theorem display_memory_is_not_the_rendered_pair:
  "lightDisplayTask_iter
     (sampler_after [100, 200, 300, 400, 500, 1000])
     (sampler_after [100, 200, 300, 400, 500, 1000])
     (sampler_after [100, 200, 300, 400, 500, 1000, 3000])
     \<lparr> lastLight = 500, lastSMA = 300 \<rparr> =
     Some ((sampler_after [100, 200, 300, 400, 500, 1000])\<lparr>displaySemaphore := False\<rparr>,
           \<lparr> lastLight = 3000, lastSMA = 1040 \<rparr>,
           [SemaphoreTake DisplaySemaphore,
            SerialPrintln ''[LightDisplay Task] Light/SMA changed. Sending to LCD...'',
            QueueSend \<lparr> line1 = ''Light: 1000'', line2 = ''SMA: 480'' \<rparr>]) \<and>
   lightDisplayTask_iter
     (sampler_after [100, 200, 300, 400, 500, 1000, 3000])
     (sampler_after [100, 200, 300, 400, 500, 1000, 3000])
     (sampler_after [100, 200, 300, 400, 500, 1000, 3000])
     \<lparr> lastLight = 3000, lastSMA = 1040 \<rparr> =
     Some ((sampler_after [100, 200, 300, 400, 500, 1000, 3000])\<lparr>displaySemaphore := False\<rparr>,
           \<lparr> lastLight = 3000, lastSMA = 1040 \<rparr>,
           [SemaphoreTake DisplaySemaphore])"
proof -
  have "displaySemaphore (sampler_after [100, 200, 300, 400, 500, 1000])"
    "displaySemaphore (sampler_after [100, 200, 300, 400, 500, 1000, 3000])"
    using sampler_after_sems [of "[100, 200, 300, 400, 500, 1000]"]
          sampler_after_sems [of "[100, 200, 300, 400, 500, 1000, 3000]"]
    by simp_all
  then show ?thesis
    by (simp add: lightDisplayTask_iter_pending lightDisplay_wake_def after_1000 after_3000
          fmt_examples)
qed

text \<open>
  C9: the last-rendered memory starts at -1 for both fields, a raw or smoothed value made
  from readings in [0, 4095] is never -1, and so the first wake after startup (the sampler
  has run at least one cycle by then) sends a message, whatever the later loads of the
  wake return.
\<close>

theorem first_wake_always_sends:
  assumes "vals \<noteq> []" and "\<forall>v\<in>set vals. sample_ok v"
  shows "lastLight display_init = - 1 \<and> lastSMA display_init = - 1 \<and>
         lightLevel (sampler_after vals) \<noteq> - 1 \<and> smaValue (sampler_after vals) \<noteq> - 1 \<and>
         lightDisplayTask_iter (sampler_after vals) sm sa display_init =
           Some ((sampler_after vals)\<lparr>displaySemaphore := False\<rparr>,
                 \<lparr> lastLight = lightLevel sa, lastSMA = smaValue sa \<rparr>,
                 [SemaphoreTake DisplaySemaphore,
                  SerialPrintln ''[LightDisplay Task] Light/SMA changed. Sending to LCD...'',
                  QueueSend \<lparr> line1 = snprintf_d 16 ''Light: '' (lightLevel sm),
                              line2 = snprintf_d 16 ''SMA: '' (smaValue sm) \<rparr>])"
proof -
  from assms(2) have ne: "lightLevel (sampler_after vals) \<noteq> - 1" "smaValue (sampler_after vals) \<noteq> - 1"
    by (simp_all add: minus_one_not_sample sampler_level sampler_sma_range)
  then have "lightLevel (sampler_after vals) \<noteq> lastLight display_init
               \<or> smaValue (sampler_after vals) \<noteq> lastSMA display_init"
    by (simp add: display_init_def)
  then have "lightDisplay_wake (sampler_after vals) sm sa display_init =
     (display_init\<lparr>lastLight := lightLevel sa, lastSMA := smaValue sa\<rparr>,
      [SerialPrintln ''[LightDisplay Task] Light/SMA changed. Sending to LCD...'',
       QueueSend \<lparr> line1 = snprintf_d 16 ''Light: '' (lightLevel sm),
                   line2 = snprintf_d 16 ''SMA: '' (smaValue sm) \<rparr>])"
    by (rule lightDisplay_wake_changed)
  with ne assms(1) show ?thesis
    by (simp add: lightDisplayTask_iter_pending sampler_after_sems display_init_def)
qed

theorem first_wake_always_sends_witness:
  "[4095 :: int] \<noteq> [] \<and> list_all sample_ok [4095] \<and>
   lightDisplayTask_iter (sampler_after [4095]) (sampler_after [4095]) (sampler_after [4095])
       display_init =
     Some ((sampler_after [4095])\<lparr>displaySemaphore := False\<rparr>,
           \<lparr> lastLight = 4095, lastSMA = 819 \<rparr>,
           [SemaphoreTake DisplaySemaphore,
            SerialPrintln ''[LightDisplay Task] Light/SMA changed. Sending to LCD...'',
            QueueSend \<lparr> line1 = ''Light: 4095'', line2 = ''SMA: 819'' \<rparr>])"
  using first_wake_always_sends [of "[4095]" "sampler_after [4095]" "sampler_after [4095]"]
  by (simp add: sample_ok_def after_4095 fmt_examples)

section \<open>Properties of the background computation\<close>

lemma isPrime_loop_iff:
  "isPrime_loop num i \<longleftrightarrow> (\<forall>d. i \<le> d \<and> d * d \<le> num \<longrightarrow> \<not> d dvd num)"
proof (induction num i rule: isPrime_loop.induct)
  case (1 num i)
  show ?case
  proof (cases "i * i \<le> num")
    case False
    have "num < d * d" if "i \<le> d" for d
    proof -
      from that have "i * i \<le> d * d"
        by (simp add: mult_le_mono)
      with False show ?thesis
        by linarith
    qed
    then have "\<forall>d. i \<le> d \<and> d * d \<le> num \<longrightarrow> \<not> d dvd num"
      by (meson not_le)
    with False show ?thesis
      by (subst isPrime_loop.simps) simp
  next
    case True
    show ?thesis
    proof (cases "num mod i = 0")
      case divides: True
      then have "i dvd num"
        by (simp add: mod_eq_0_iff_dvd)
      with True have "\<not> (\<forall>d. i \<le> d \<and> d * d \<le> num \<longrightarrow> \<not> d dvd num)"
        by blast
      with True divides show ?thesis
        by (subst isPrime_loop.simps) simp
    next
      case False
      then have nd: "\<not> i dvd num"
        by (simp add: mod_eq_0_iff_dvd)
      have "isPrime_loop num i = isPrime_loop num (i + 1)"
        using True False by (subst isPrime_loop.simps) simp
      also have "\<dots> \<longleftrightarrow> (\<forall>d. i + 1 \<le> d \<and> d * d \<le> num \<longrightarrow> \<not> d dvd num)"
        using True False by (rule "1.IH")
      also have "\<dots> \<longleftrightarrow> (\<forall>d. i \<le> d \<and> d * d \<le> num \<longrightarrow> \<not> d dvd num)"
      proof (intro iffI allI impI)
        fix d
        assume a: "\<forall>d. i + 1 \<le> d \<and> d * d \<le> num \<longrightarrow> \<not> d dvd num" and b: "i \<le> d \<and> d * d \<le> num"
        show "\<not> d dvd num"
        proof (cases "d = i")
          case True
          with nd show ?thesis by simp
        next
          case False
          with b have "i + 1 \<le> d \<and> d * d \<le> num" by simp
          with a show ?thesis by blast
        qed
      next
        fix d
        assume a: "\<forall>d. i \<le> d \<and> d * d \<le> num \<longrightarrow> \<not> d dvd num" and b: "i + 1 \<le> d \<and> d * d \<le> num"
        then have "i \<le> d \<and> d * d \<le> num" by simp
        with a show "\<not> d dvd num" by blast
      qed
      finally show ?thesis .
    qed
  qed
qed

lemma small_divisor:
  assumes "2 \<le> d" and "d < n" and "d dvd (n::nat)"
  shows "\<exists>e. 2 \<le> e \<and> e * e \<le> n \<and> e dvd n"
proof -
  from assms(3) obtain k where n: "n = d * k" ..
  with assms(1,2) have k: "2 \<le> k"
    by (cases k; cases "k - 1") auto
  show ?thesis
  proof (cases "d \<le> k")
    case True
    then have "d * d \<le> d * k"
      by (rule mult_le_mono2)
    with assms n show ?thesis
      by auto
  next
    case False
    then have "k * k \<le> d * k"
      by (intro mult_le_mono1) simp
    moreover have "k dvd n"
      by (simp add: n)
    ultimately show ?thesis
      using k n by auto
  qed
qed

lemma trial_division_is_prime:
  assumes "2 \<le> n"
  shows "isPrime_loop n 2 \<longleftrightarrow> is_prime n"
proof
  assume "isPrime_loop n 2"
  then have none: "\<forall>d. 2 \<le> d \<and> d * d \<le> n \<longrightarrow> \<not> d dvd n"
    by (simp add: isPrime_loop_iff)
  have "\<not> d dvd n" if "d \<in> {2..<n}" for d
  proof
    assume "d dvd n"
    with that obtain e where "2 \<le> e \<and> e * e \<le> n \<and> e dvd n"
      using small_divisor [of d n] by auto
    with none show False
      by blast
  qed
  with assms show "is_prime n"
    by (simp add: is_prime_def)
next
  assume p: "is_prime n"
  have "\<not> d dvd n" if "2 \<le> d \<and> d * d \<le> n" for d
  proof -
    from that have "d * 2 \<le> d * d"
      by (intro mult_le_mono2) simp
    with that have "d < n"
      by linarith
    with that p show ?thesis
      by (simp add: is_prime_def)
  qed
  then show "isPrime_loop n 2"
    by (simp add: isPrime_loop_iff)
qed

lemma prime_loop_filter:
  "prime_loop num =
     concat (map (\<lambda>n. [prime_line n, TaskDelayMs 10]) (filter (\<lambda>n. isPrime_loop n 2) [num..<5001]))"
proof (induction num rule: prime_loop.induct)
  case (1 num)
  show ?case
  proof (cases "num \<le> 5000")
    case True
    then have "[num..<5001] = num # [num + 1..<5001]"
      by (simp add: upt_conv_Cons)
    with True "1.IH" show ?thesis
      by (subst prime_loop.simps) simp
  next
    case False
    then show ?thesis
      by (subst prime_loop.simps) simp
  qed
qed

lemma in_range_ge2: "n \<in> set [2..<5001] \<Longrightarrow> 2 \<le> n"
  by (simp only: set_upt atLeastLessThan_iff)

lemma prime_loop_primes:
  "prime_loop 2 = concat (map (\<lambda>n. [prime_line n, TaskDelayMs 10]) (filter is_prime [2..<5001]))"
proof -
  have "filter (\<lambda>n. isPrime_loop n 2) [2..<5001] = filter is_prime [2..<5001]"
    by (rule filter_cong [OF refl]) (simp only: trial_division_is_prime [OF in_range_ge2])
  then show ?thesis
    by (simp only: prime_loop_filter)
qed

lemma emitted_lines:
  "emitted (concat (map (\<lambda>n. [prime_line n, TaskDelayMs 10]) ns) @ es) = map int ns @ emitted es"
  by (induction ns) (simp_all add: prime_line_def)

lemma primeTask_shape:
  "primeTask =
     SerialPrintln ''[Prime Task] Starting prime computation...'' #
     concat (map (\<lambda>n. [prime_line n, TaskDelayMs 10]) (filter is_prime [2..<5001])) @
     [SerialPrintln ''[Prime Task] Prime computation completed.'', TaskDelete]"
  by (simp only: primeTask_def prime_loop_primes)

lemma emitted_primeTask: "emitted primeTask = map int (filter is_prime [2..<5001])"
proof -
  define ps where "ps = filter is_prime [2..<5001]"
  have shape: "primeTask =
     SerialPrintln ''[Prime Task] Starting prime computation...'' #
     concat (map (\<lambda>n. [prime_line n, TaskDelayMs 10]) ps) @
     [SerialPrintln ''[Prime Task] Prime computation completed.'', TaskDelete]"
    by (simp only: primeTask_shape ps_def)
  have "emitted primeTask = map int ps"
    by (simp add: shape emitted_lines)
  then show ?thesis
    by (simp only: ps_def)
qed

lemma in_primes_iff: "n \<in> set (filter is_prime [2..<5001]) \<longleftrightarrow> 2 \<le> n \<and> n \<le> 5000 \<and> is_prime n"
proof -
  have "n < 5001 \<longleftrightarrow> n \<le> 5000"
    by linarith
  then show ?thesis
    by (simp only: set_filter set_upt atLeastLessThan_iff mem_Collect_eq) blast
qed

lemma prime_line_in_primeTask:
  "prime_line n \<in> set primeTask \<longleftrightarrow> 2 \<le> n \<and> n \<le> 5000 \<and> is_prime n"
proof -
  define ps where "ps = filter is_prime [2..<5001]"
  have shape: "primeTask =
     SerialPrintln ''[Prime Task] Starting prime computation...'' #
     concat (map (\<lambda>n. [prime_line n, TaskDelayMs 10]) ps) @
     [SerialPrintln ''[Prime Task] Prime computation completed.'', TaskDelete]"
    by (simp only: primeTask_shape ps_def)
  have "prime_line n \<in> set primeTask \<longleftrightarrow> n \<in> set ps"
    by (auto simp: shape prime_line_def)
  then show ?thesis
    by (simp only: ps_def in_primes_iff)
qed

lemma primes_upto_10: "filter is_prime [2..<11] = [2, 3, 5, 7]"
  by code_simp

lemma primes_in_2_10: "{m. 2 \<le> m \<and> m \<le> 10 \<and> is_prime m} = {2, 3, 5, 7}"
proof -
  have "{m. 2 \<le> m \<and> m \<le> 10 \<and> is_prime m} = set (filter is_prime [2..<11])"
    by (auto simp del: upt_rec_numeral)
  then show ?thesis
    by (simp only: primes_upto_10) simp
qed

lemma is_prime_7: "is_prime 7"
  by code_simp

lemma not_is_prime_9: "\<not> is_prime 9"
  by code_simp

text \<open>
  C6: for every n from 2 to 5000 the task prints n exactly when n is prime, and the trial
  division over the divisors i with i * i <= n decides primality; the numbers printed are
  the primes of the range in increasing order, those from 2 to 10 are 2, 3, 5 and 7, and
  the trace ends with the completion message and the task deleting itself.
\<close>

theorem prime_task_emits_primes:
  "(2 \<le> n \<and> n \<le> 5000 \<longrightarrow> (prime_line n \<in> set primeTask \<longleftrightarrow> is_prime n)) \<and>
   (2 \<le> n \<and> n \<le> 5000 \<longrightarrow> (isPrime_loop n 2 \<longleftrightarrow> is_prime n)) \<and>
   emitted primeTask = map int (filter is_prime [2..<5001]) \<and>
   {k \<in> set (emitted primeTask). 2 \<le> k \<and> k \<le> 10} = {2, 3, 5, 7} \<and>
   (\<exists>es. primeTask = es @ [SerialPrintln ''[Prime Task] Prime computation completed.'', TaskDelete])"
proof (intro conjI)
  show "2 \<le> n \<and> n \<le> 5000 \<longrightarrow> (prime_line n \<in> set primeTask \<longleftrightarrow> is_prime n)"
    by (simp add: prime_line_in_primeTask)
  show "2 \<le> n \<and> n \<le> 5000 \<longrightarrow> (isPrime_loop n 2 \<longleftrightarrow> is_prime n)"
    by (simp add: trial_division_is_prime)
  show "emitted primeTask = map int (filter is_prime [2..<5001])"
    by (rule emitted_primeTask)
  have "k \<in> set (emitted primeTask) \<longleftrightarrow> (\<exists>m. k = int m \<and> 2 \<le> m \<and> m \<le> 5000 \<and> is_prime m)" for k
    by (simp only: emitted_primeTask set_map image_iff in_primes_iff Bex_def) blast
  then have "{k \<in> set (emitted primeTask). 2 \<le> k \<and> k \<le> 10}
               = int ` {m. 2 \<le> m \<and> m \<le> 10 \<and> is_prime m}"
    by auto
  then show "{k \<in> set (emitted primeTask). 2 \<le> k \<and> k \<le> 10} = {2, 3, 5, 7}"
    by (simp add: primes_in_2_10)
  show "\<exists>es. primeTask = es @ [SerialPrintln ''[Prime Task] Prime computation completed.'', TaskDelete]"
    by (simp add: primeTask_def)
qed

theorem prime_task_emits_primes_witness:
  "(2::nat) \<le> 7 \<and> (7::nat) \<le> 5000 \<and> is_prime 7 \<and> isPrime_loop 7 2 \<and> prime_line 7 \<in> set primeTask \<and>
   (2::nat) \<le> 9 \<and> (9::nat) \<le> 5000 \<and> \<not> is_prime 9 \<and> \<not> isPrime_loop 9 2 \<and> prime_line 9 \<notin> set primeTask"
  using prime_task_emits_primes [of 7, THEN conjunct1]
        prime_task_emits_primes [of 7, THEN conjunct2, THEN conjunct1]
        prime_task_emits_primes [of 9, THEN conjunct1]
        prime_task_emits_primes [of 9, THEN conjunct2, THEN conjunct1]
        is_prime_7 not_is_prime_9
  by simp

section \<open>Properties of the startup\<close>

lemma halt_forever_None: "halt_forever u = None"
proof (rule ccontr)
  assume "halt_forever u \<noteq> None"
  then obtain y where "halt_forever u = Some y"
    by auto
  then show False
    by (rule halt_forever.raw_induct [where P = "\<lambda>_ _. False", rotated])
qed

lemma setup_starts_all_tasks:
  "setup_sketch (Some d) (Some a) (Some q) =
     ([SerialBegin 115200, WireBegin SDA_PIN SCL_PIN, LcdInit, LcdBacklight,
       AnalogReadResolution 12, PinMode LED_PIN OUTPUT,
       TaskCreatePinnedToCore LcdTask ''LCD'' 2048 1 0,
       TaskCreatePinnedToCore LightDetectorTask ''LightDetector'' 2048 2 0,
       TaskCreatePinnedToCore LightDisplayTask ''LightDisplay'' 2048 2 0,
       TaskCreatePinnedToCore AlarmTask ''Alarm'' 2048 1 1,
       TaskCreatePinnedToCore PrimeTask ''Prime'' 4096 1 1], Some ())"
  by (simp add: setup_sketch_def)

text \<open>
  C8: when the queue or either semaphore could not be allocated, the startup prints the
  diagnostic and then never returns; its trace creates no task.
\<close>

theorem setup_halts_on_allocation_failure:
  assumes "lcdQueue = None \<or> displaySem = None \<or> alarmSem = None"
  shows "setup_sketch displaySem alarmSem lcdQueue =
           ([SerialBegin 115200, WireBegin SDA_PIN SCL_PIN, LcdInit, LcdBacklight,
             AnalogReadResolution 12, PinMode LED_PIN OUTPUT,
             SerialPrintln ''Failed to create queue or semaphores''], None) \<and>
         \<not> list_ex is_task_create (fst (setup_sketch displaySem alarmSem lcdQueue))"
  using assms by (auto simp: setup_sketch_def halt_forever_None)

theorem setup_halts_on_allocation_failure_witness:
  "setup_sketch (Some xSemaphoreCreateBinary) (Some xSemaphoreCreateBinary) None =
     ([SerialBegin 115200, WireBegin SDA_PIN SCL_PIN, LcdInit, LcdBacklight,
       AnalogReadResolution 12, PinMode LED_PIN OUTPUT,
       SerialPrintln ''Failed to create queue or semaphores''], None) \<and>
   \<not> list_ex is_task_create
       (fst (setup_sketch (Some xSemaphoreCreateBinary) (Some xSemaphoreCreateBinary) None))"
  using setup_halts_on_allocation_failure
          [of None "Some xSemaphoreCreateBinary" "Some xSemaphoreCreateBinary"]
  by simp

end
